theory Spec2Isabelle
  imports Complex_Main "HOL-Library.Log_Nat" "HOL-Library.AList"
begin

section \<open>Python values\<close>

text \<open>
  A \<open>datetime\<close> is kept as the reading of its own wall clock, in microseconds counted
  from 1970-01-01T00:00:00 on that clock, together with its \<open>tzinfo\<close>: \<open>None\<close> for a
  naive datetime, \<open>Some off\<close> for an aware one whose zone lies \<open>off\<close> microseconds east
  of UTC. \<open>dt.timezone.utc\<close> is \<open>Some 0\<close>.
\<close>

record datetime =
  wall :: int
  tzinfo :: "int option"

text \<open>
  The values that reach the functions of \<open>merge_fit.py\<close> and \<open>pm5_readout.py\<close>:
  \<open>None\<close>, booleans, integers, strings, datetimes, lists, and objects. An object is the
  finite list of the attributes that \<open>hasattr\<close> and \<open>getattr\<close> see on it, first binding
  first. Floating-point field values are not part of this universe.
\<close>

datatype pyval =
    PyNone
  | PyBool bool
  | PyInt int
  | PyStr string
  | PyDatetime datetime
  | PyList "pyval list"
  | PyObj "(string \<times> pyval) list"

text \<open>
  The exceptions the modelled code can raise. \<open>OutOfRange\<close> stands for the
  \<open>ValueError\<close>, \<open>OverflowError\<close> or \<open>OSError\<close> with which the division
  \<open>int(x) / 1000\<close> or \<open>datetime.fromtimestamp\<close> rejects an instant outside the years
  1 to 9999. \<open>RuntimeError\<close> is the empty-result error of \<open>extract_polar_hr_series\<close>.
\<close>

datatype exn = TypeError | ValueError | OutOfRange | UnboundLocalError | RuntimeError

subsection \<open>Attribute access\<close>

text \<open>
  \<open>hasattr(v, n)\<close> and \<open>getattr(v, n, default)\<close>. The instances of the built-in types
  carry none of the names the code asks them for (\<open>name\<close>, \<open>fields\<close>, \<open>value\<close>,
  \<open>raw_value\<close>, \<open>is_definition\<close>); their own methods (such as \<open>int.real\<close>) are not
  modelled, so the theorems about the resolvers speak about messages that are \<open>None\<close>
  or objects (\<open>message_ok\<close> below).
\<close>

fun py_hasattr :: "pyval \<Rightarrow> string \<Rightarrow> bool" where
  "py_hasattr (PyObj attrs) n = (map_of attrs n \<noteq> None)"
| "py_hasattr _ n = False"

fun py_getattr :: "pyval \<Rightarrow> string \<Rightarrow> pyval \<Rightarrow> pyval" where
  "py_getattr (PyObj attrs) n d = (case map_of attrs n of Some v \<Rightarrow> v | None \<Rightarrow> d)"
| "py_getattr _ n d = d"

text \<open>
  Truth value of a value in a condition (\<open>if v:\<close>). The modelled objects define neither
  \<open>__bool__\<close> nor \<open>__len__\<close>, so they are true.
\<close>

fun truthy :: "pyval \<Rightarrow> bool" where
  "truthy PyNone = False"
| "truthy (PyBool b) = b"
| "truthy (PyInt i) = (i \<noteq> 0)"
| "truthy (PyStr s) = (s \<noteq> [])"
| "truthy (PyList xs) = (xs \<noteq> [])"
| "truthy (PyDatetime d) = True"
| "truthy (PyObj attrs) = True"

text \<open>\<open>isinstance(v, int)\<close>: \<open>bool\<close> is a subclass of \<open>int\<close>.\<close>

fun isinstance_int :: "pyval \<Rightarrow> bool" where
  "isinstance_int (PyInt i) = True"
| "isinstance_int (PyBool b) = True"
| "isinstance_int _ = False"

text \<open>
  Iterating a value in a \<open>for\<close> loop: a list yields its elements, a string its
  one-character strings, everything else raises \<open>TypeError\<close>.
\<close>

fun py_iter :: "pyval \<Rightarrow> exn + pyval list" where
  "py_iter (PyList xs) = Inr xs"
| "py_iter (PyStr s) = Inr (map (\<lambda>c. PyStr [c]) s)"
| "py_iter _ = Inl TypeError"

subsection \<open>The constructor \<open>int(v)\<close>\<close>

text \<open>
  On a string, \<open>int\<close> reads a decimal literal: white space around it is dropped, one sign
  may lead, and single underscores may separate digits. Among the code points below 256
  the white space of the parser is 9 to 13, 32, 133 and 160. The interpreter's optional
  limit on the length of such a literal is not modelled.
\<close>

definition is_space :: "char \<Rightarrow> bool" where
  "is_space c = ((of_char c :: nat) \<in> {9, 10, 11, 12, 13, 32, 133, 160})"

definition is_digit :: "char \<Rightarrow> bool" where
  "is_digit c = (48 \<le> (of_char c :: nat) \<and> (of_char c :: nat) \<le> 57)"

definition digit_val :: "char \<Rightarrow> int" where
  "digit_val c = int (of_char c) - 48"

text \<open>
  \<open>digits acc prev s\<close> reads the digits of \<open>s\<close> into \<open>acc\<close>; \<open>prev\<close> tells whether the
  character before was a digit, which an underscore and the end both require.
\<close>

fun digits :: "int \<Rightarrow> bool \<Rightarrow> string \<Rightarrow> int option" where
  "digits acc prev [] = (if prev then Some acc else None)"
| "digits acc prev (c # cs) =
     (if is_digit c then digits (acc * 10 + digit_val c) True cs
      else if c = CHR ''_'' \<and> prev then digits acc False cs
      else None)"

definition int_of_str :: "string \<Rightarrow> exn + int" where
  "int_of_str s =
     (let body = rev (dropWhile is_space (rev (dropWhile is_space s)));
          (neg, ds) = (case body of
                         c # cs \<Rightarrow> if c = CHR ''-'' then (True, cs)
                                   else if c = CHR ''+'' then (False, cs)
                                   else (False, body)
                       | [] \<Rightarrow> (False, []))
      in case digits 0 False ds of
           None \<Rightarrow> Inl ValueError
         | Some n \<Rightarrow> Inr (if neg then - n else n))"

text \<open>The modelled objects define no numeric conversion of their own.\<close>

fun py_int :: "pyval \<Rightarrow> exn + int" where
  "py_int (PyInt i) = Inr i"
| "py_int (PyBool b) = Inr (if b then 1 else 0)"
| "py_int (PyStr s) = int_of_str s"
| "py_int _ = Inl TypeError"

section \<open>Floating point, as far as \<open>_as_dt\<close> uses it\<close>

text \<open>
  A finite double is a rational number. \<open>ilog2 q\<close> is the binary exponent of a positive
  \<open>q\<close>, and \<open>double_round\<close> rounds a rational to the nearest number with a 53-bit
  significand, ties to even: the rounding of every arithmetic operation on doubles
  (overflow is left to the range check of \<open>fromtimestamp_utc\<close>; no quantity here is
  small enough to be subnormal).
\<close>

definition round_half_even :: "rat \<Rightarrow> int" where
  "round_half_even x =
     (let f = \<lfloor>x\<rfloor>; d = x - of_int f
      in if d < 1 / 2 then f
         else if 1 / 2 < d then f + 1
         else if even f then f else f + 1)"

definition ilog2 :: "rat \<Rightarrow> int" where
  "ilog2 q = (if 1 \<le> q then bitlen \<lfloor>q\<rfloor> - 1 else - bitlen (\<lceil>1 / q\<rceil> - 1))"

definition double_round :: "rat \<Rightarrow> rat" where
  "double_round q =
     (if q = 0 then 0
      else let u = 2 powi (ilog2 \<bar>q\<bar> - 52)
           in of_int (round_half_even (q / u)) * u)"

text \<open>\<open>a / b\<close> on two integers (true division), for a non-zero \<open>b\<close>.\<close>

definition py_truediv :: "int \<Rightarrow> int \<Rightarrow> rat" where
  "py_truediv a b = double_round (of_int a / of_int b)"

section \<open>The datetime library\<close>

text \<open>
  \<open>datetime.fromtimestamp(t, tz=UTC)\<close> for a double \<open>t\<close>: the seconds are split with
  \<open>modf\<close> into the integral part (rounded toward zero) and the fraction, the fraction is
  multiplied by \<open>1e6\<close> and rounded half-to-even to whole microseconds, and a carry or
  borrow moves into the seconds. The instant has to lie between 0001-01-01T00:00:00 and
  9999-12-31T23:59:59.999999.
\<close>

definition trunc :: "rat \<Rightarrow> int" where
  "trunc q = (if 0 \<le> q then \<lfloor>q\<rfloor> else \<lceil>q\<rceil>)"

definition MIN_SECONDS :: int where
  "MIN_SECONDS = - 62135596800"

definition MAX_SECONDS :: int where
  "MAX_SECONDS = 253402300799"

definition fromtimestamp_utc :: "rat \<Rightarrow> exn + datetime" where
  "fromtimestamp_utc t =
     (let ip = trunc t;
          frac = t - of_int ip;
          us0 = round_half_even (double_round (frac * 1000000));
          (secs, us) = (if 1000000 \<le> us0 then (ip + 1, us0 - 1000000)
                        else if us0 < 0 then (ip - 1, us0 + 1000000)
                        else (ip, us0))
      in if MIN_SECONDS \<le> secs \<and> secs \<le> MAX_SECONDS
         then Inr \<lparr>wall = secs * 1000000 + us, tzinfo = Some 0\<rparr>
         else Inl OutOfRange)"

text \<open>
  \<open>dt.datetime(y, m, d, hh, mm, ss, tzinfo=UTC)\<close>: the days of the proleptic Gregorian
  calendar from 1970-01-01 to the civil date, then the time of day.
\<close>

definition days_from_civil :: "int \<Rightarrow> int \<Rightarrow> int \<Rightarrow> int" where
  "days_from_civil y m d =
     (let y' = (if m \<le> 2 then y - 1 else y);
          era = y' div 400;
          yoe = y' - era * 400;
          doy = (153 * (if 2 < m then m - 3 else m + 9) + 2) div 5 + d - 1;
          doe = yoe * 365 + yoe div 4 - yoe div 100 + doy
      in era * 146097 + doe - 719468)"

definition utc_datetime :: "int \<Rightarrow> int \<Rightarrow> int \<Rightarrow> int \<Rightarrow> int \<Rightarrow> int \<Rightarrow> datetime" where
  "utc_datetime y m d hh mm ss =
     \<lparr>wall = (((days_from_civil y m d * 24 + hh) * 60 + mm) * 60 + ss) * 1000000,
      tzinfo = Some 0\<rparr>"

section \<open>\<open>merge_fit.py\<close>\<close>

subsection \<open>\<open>_as_dt\<close>\<close>

definition as_dt :: "pyval \<Rightarrow> exn + pyval" where
  "as_dt x =
     (case x of
        PyNone \<Rightarrow> Inr PyNone
      | PyDatetime d \<Rightarrow>
          (if tzinfo d \<noteq> None then Inr (PyDatetime d)
           else Inr (PyDatetime (d\<lparr>tzinfo := Some 0\<rparr>)))
      | _ \<Rightarrow>
          (case py_int x of
             Inl e \<Rightarrow> Inl e
           | Inr i \<Rightarrow>
               (case fromtimestamp_utc (py_truediv i 1000) of
                  Inl e \<Rightarrow> Inl e
                | Inr d \<Rightarrow> Inr (PyDatetime d))))"

subsection \<open>\<open>_field_value_from_fields\<close> and \<open>msg_value\<close>\<close>

text \<open>
  The \<open>for\<close> loop of \<open>_field_value_from_fields\<close>: the first entry whose \<open>name\<close> equals
  the field name decides, by its \<open>value\<close>, else its \<open>raw_value\<close>, else \<open>None\<close>.
\<close>

fun scan_fields :: "pyval list \<Rightarrow> string \<Rightarrow> pyval" where
  "scan_fields [] field_name = PyNone"
| "scan_fields (f # fs) field_name =
     (if py_getattr f ''name'' PyNone = PyStr field_name
      then (if py_hasattr f ''value'' then py_getattr f ''value'' PyNone
            else if py_hasattr f ''raw_value'' then py_getattr f ''raw_value'' PyNone
            else PyNone)
      else scan_fields fs field_name)"

definition field_value_from_fields :: "pyval \<Rightarrow> string \<Rightarrow> exn + pyval" where
  "field_value_from_fields msg field_name =
     (if msg = PyNone \<or> \<not> py_hasattr msg ''fields'' then Inr PyNone
      else case py_iter (py_getattr msg ''fields'' PyNone) of
             Inl e \<Rightarrow> Inl e
           | Inr fs \<Rightarrow> Inr (scan_fields fs field_name))"

definition msg_value :: "pyval \<Rightarrow> string \<Rightarrow> exn + pyval" where
  "msg_value msg field_name =
     (if msg = PyNone then Inr PyNone
      else if py_hasattr msg field_name then Inr (py_getattr msg field_name PyNone)
      else field_value_from_fields msg field_name)"

subsection \<open>\<open>extract_polar_hr_series\<close>\<close>

text \<open>
  A record of \<open>ff.records\<close> has a \<open>header\<close> and a \<open>message\<close>. The local variables of the
  function are the state of its loop; \<open>ts\<close> is \<open>None\<close> as long as the local name \<open>ts\<close>
  is unbound. The dictionary \<open>hr_by_time\<close> is an association list in insertion order,
  one entry per key. Its keys are compared as values of \<open>pyval\<close>; every key the loop
  stores is a UTC datetime (claim C9 below), and on those the comparison of the
  dictionary, by instant, is the same.
\<close>

record fit_record =
  header :: pyval
  message :: pyval

record loop_state =
  hr_by_time :: "(pyval \<times> int) list"
  record_msgs :: nat
  record_with_hr :: nat
  ts :: "pyval option"

definition init_state :: loop_state where
  "init_state = \<lparr>hr_by_time = [], record_msgs = 0, record_with_hr = 0, ts = None\<rparr>"

text \<open>One pass through the body of the \<open>for\<close> loop.\<close>

definition loop_body :: "loop_state \<Rightarrow> fit_record \<Rightarrow> exn + loop_state" where
  "loop_body st rec =
     (if truthy (py_getattr (header rec) ''is_definition'' (PyBool False)) then Inr st
      else let msg = message rec in
        if py_getattr msg ''name'' PyNone \<noteq> PyStr ''record'' then Inr st
        else let st1 = st\<lparr>record_msgs := record_msgs st + 1\<rparr> in
          case msg_value msg ''timestamp'' of
            Inl e \<Rightarrow> Inl e
          | Inr raw_ts \<Rightarrow>
              (case (if isinstance_int raw_ts
                     then (case as_dt raw_ts of Inl e \<Rightarrow> Inl e | Inr t \<Rightarrow> Inr (Some t))
                     else Inr (ts st1)) of
                 Inl e \<Rightarrow> Inl e
               | Inr ts' \<Rightarrow>
                   let st2 = st1\<lparr>ts := ts'\<rparr> in
                   (case msg_value msg ''heart_rate'' of
                      Inl e \<Rightarrow> Inl e
                    | Inr hr \<Rightarrow>
                        (case ts' of
                           None \<Rightarrow> Inl UnboundLocalError
                         | Some t \<Rightarrow>
                             if t = PyNone \<or> hr = PyNone then Inr st2
                             else (case py_int hr of
                                     Inl e \<Rightarrow> Inl e
                                   | Inr n \<Rightarrow>
                                       Inr (st2\<lparr>record_with_hr := record_with_hr st2 + 1,
                                                hr_by_time := AList.update t n (hr_by_time st2)\<rparr>))))))"

text \<open>The whole loop stops at the first exception.\<close>

fun run_loop :: "loop_state \<Rightarrow> fit_record list \<Rightarrow> exn + loop_state" where
  "run_loop st [] = Inr st"
| "run_loop st (rec # recs) =
     (case loop_body st rec of Inl e \<Rightarrow> Inl e | Inr st' \<Rightarrow> run_loop st' recs)"

text \<open>Decimal rendering of a counter inside an f-string.\<close>

fun str_of_nat :: "nat \<Rightarrow> string" where
  "str_of_nat n =
     (if n < 10 then [char_of (48 + n)]
      else str_of_nat (n div 10) @ [char_of (48 + n mod 10)])"

text \<open>
  The function on \<open>ff.records\<close>, the records that the decoder library returns for the
  file (\<open>FitFile.from_file\<close> itself lies outside the repository). It returns the lines
  it printed and either the exception it raised or the dictionary it returned.
\<close>

definition extract_polar_hr_series :: "fit_record list \<Rightarrow> string list \<times> (exn + (pyval \<times> int) list)" where
  "extract_polar_hr_series records =
     (case run_loop init_state records of
        Inl e \<Rightarrow> ([], Inl e)
      | Inr st \<Rightarrow>
          if hr_by_time st = [] then ([], Inl RuntimeError)
          else ([''[Polar] record messages: '' @ str_of_nat (record_msgs st),
                 ''[Polar] records with HR: '' @ str_of_nat (record_with_hr st),
                 ''[Polar] HR samples extracted: '' @ str_of_nat (length (hr_by_time st))],
                Inr (hr_by_time st)))"

section \<open>\<open>pm5_readout.py\<close>\<close>

fun find_field :: "pyval list \<Rightarrow> string \<Rightarrow> pyval" where
  "find_field [] name = PyNone"
| "find_field (f # fs) name =
     (if py_getattr f ''name'' PyNone = PyStr name then f else find_field fs name)"

definition field_by_name :: "pyval \<Rightarrow> string \<Rightarrow> exn + pyval" where
  "field_by_name msg name =
     (if msg = PyNone \<or> \<not> py_hasattr msg ''fields'' then Inr PyNone
      else case py_iter (py_getattr msg ''fields'' PyNone) of
             Inl e \<Rightarrow> Inl e
           | Inr fs \<Rightarrow> Inr (find_field fs name))"

definition value_from_msg :: "pyval \<Rightarrow> string \<Rightarrow> exn + pyval" where
  "value_from_msg msg name =
     (if msg = PyNone then Inr PyNone
      else if py_hasattr msg name then
        (let v = py_getattr msg name PyNone
         in if py_hasattr v ''value'' then Inr (py_getattr v ''value'' PyNone) else Inr v)
      else case field_by_name msg name of
             Inl e \<Rightarrow> Inl e
           | Inr f \<Rightarrow> if f = PyNone then Inr PyNone else Inr (py_getattr f ''value'' PyNone))"

section \<open>Well-formed inputs\<close>

text \<open>
  The field collection of a message can be traversed (a message without the attribute
  \<open>fields\<close> has no collection), and \<open>field_entries\<close> are its entries in order.
\<close>

definition fields_ok :: "pyval \<Rightarrow> bool" where
  "fields_ok msg = (case py_iter (py_getattr msg ''fields'' (PyList [])) of
                      Inl e \<Rightarrow> False | Inr fs \<Rightarrow> True)"

definition field_entries :: "pyval \<Rightarrow> pyval list" where
  "field_entries msg = (case py_iter (py_getattr msg ''fields'' (PyList [])) of
                          Inl e \<Rightarrow> [] | Inr fs \<Rightarrow> fs)"

text \<open>A decoded message: \<open>None\<close> or an object, with a field collection that can be traversed.\<close>

definition message_ok :: "pyval \<Rightarrow> bool" where
  "message_ok msg =
     ((case msg of PyNone \<Rightarrow> True | PyObj attrs \<Rightarrow> True | _ \<Rightarrow> False) \<and> fields_ok msg)"

definition named :: "string \<Rightarrow> pyval \<Rightarrow> bool" where
  "named n f = (py_getattr f ''name'' PyNone = PyStr n)"

text \<open>A record that passes both filters of the loop: a data record named \<open>record\<close>.\<close>

definition is_definition_record :: "fit_record \<Rightarrow> bool" where
  "is_definition_record r = truthy (py_getattr (header r) ''is_definition'' (PyBool False))"

definition passes_filters :: "fit_record \<Rightarrow> bool" where
  "passes_filters r =
     (\<not> is_definition_record r \<and> py_getattr (message r) ''name'' PyNone = PyStr ''record'')"

section \<open>The Field Resolver as the specification words it\<close>

text \<open>
  \<open>spec_resolve\<close> follows the specification's two tiers, not the code: a direct attribute
  is returned with one level of value wrapper removed; otherwise the first entry of the
  field collection with the name gives its \<open>value\<close>, else its \<open>raw_value\<close>, else absent.
  A message without a field collection has no entries.
\<close>

definition spec_unwrap :: "pyval \<Rightarrow> pyval" where
  "spec_unwrap v = (if py_hasattr v ''value'' then py_getattr v ''value'' PyNone else v)"

definition spec_entry_value :: "pyval \<Rightarrow> pyval" where
  "spec_entry_value f =
     (if py_hasattr f ''value'' then py_getattr f ''value'' PyNone
      else if py_hasattr f ''raw_value'' then py_getattr f ''raw_value'' PyNone
      else PyNone)"

definition spec_resolve :: "pyval \<Rightarrow> string \<Rightarrow> pyval" where
  "spec_resolve msg field_name =
     (if msg = PyNone then PyNone
      else if py_hasattr msg field_name
        then spec_unwrap (py_getattr msg field_name PyNone)
      else case find (named field_name) (field_entries msg) of
             None \<Rightarrow> PyNone
           | Some f \<Rightarrow> spec_entry_value f)"

section \<open>What a record offers the series\<close>

text \<open>
  What a record offers the series: \<open>normalized_from r k\<close> says that \<open>r\<close> passes the
  filters and its \<open>timestamp\<close> resolves to an integer that \<open>_as_dt\<close> turns into \<open>k\<close>;
  \<open>coerced_from r v\<close> says that its \<open>heart_rate\<close> resolves to a value other than \<open>None\<close>
  whose \<open>int\<close> is \<open>v\<close>; \<open>has_heart_rate r\<close> that it resolves to a value other than \<open>None\<close>.
\<close>

definition normalized_from :: "fit_record \<Rightarrow> pyval \<Rightarrow> bool" where
  "normalized_from r k =
     (passes_filters r \<and>
      (case msg_value (message r) ''timestamp'' of
         Inl e \<Rightarrow> False
       | Inr raw \<Rightarrow> isinstance_int raw \<and> as_dt raw = Inr k))"

definition coerced_from :: "fit_record \<Rightarrow> int \<Rightarrow> bool" where
  "coerced_from r v =
     (passes_filters r \<and>
      (case msg_value (message r) ''heart_rate'' of
         Inl e \<Rightarrow> False
       | Inr hr \<Rightarrow> hr \<noteq> PyNone \<and> py_int hr = Inr v))"

definition has_heart_rate :: "fit_record \<Rightarrow> bool" where
  "has_heart_rate r =
     (case msg_value (message r) ''heart_rate'' of
        Inl e \<Rightarrow> False
      | Inr hr \<Rightarrow> hr \<noteq> PyNone)"

text \<open>
  The invariant of the loop over the records \<open>R\<close> seen so far: the bound \<open>ts\<close> and every
  key of the dictionary were normalised from the integer timestamp of a record of \<open>R\<close>,
  and every stored value is the \<open>int\<close> of the heart rate of a record of \<open>R\<close>.
\<close>

definition series_inv :: "fit_record set \<Rightarrow> loop_state \<Rightarrow> bool" where
  "series_inv R st =
     ((\<forall>t. ts st = Some t \<longrightarrow> (\<exists>r\<in>R. normalized_from r t))
      \<and> (\<forall>(k, v)\<in>set (hr_by_time st).
            (\<exists>r\<in>R. normalized_from r k) \<and> (\<exists>r\<in>R. coerced_from r v)))"

text \<open>
  A record that cannot touch the entry at \<open>k\<close>: it is filtered out, or its heart rate
  resolves to \<open>None\<close>, or its integer timestamp is normalised to another instant.
\<close>

definition leaves_alone :: "pyval \<Rightarrow> fit_record \<Rightarrow> bool" where
  "leaves_alone k z =
     (\<not> passes_filters z
      \<or> msg_value (message z) ''heart_rate'' = Inr PyNone
      \<or> (\<exists>k'. k' \<noteq> k \<and> normalized_from z k'))"

section \<open>Sample records\<close>

text \<open>
  A data record named \<open>record\<close> whose message exposes \<open>timestamp\<close> and \<open>heart_rate\<close> as
  attributes, and a definition record with the same message.
\<close>

definition data_record :: "pyval \<Rightarrow> pyval \<Rightarrow> fit_record" where
  "data_record tv hv =
     \<lparr>header = PyObj [(''is_definition'', PyBool False)],
      message = PyObj [(''name'', PyStr ''record''), (''timestamp'', tv), (''heart_rate'', hv)]\<rparr>"

definition definition_record :: "pyval \<Rightarrow> pyval \<Rightarrow> fit_record" where
  "definition_record tv hv =
     \<lparr>header = PyObj [(''is_definition'', PyBool True)],
      message = PyObj [(''name'', PyStr ''record''), (''timestamp'', tv), (''heart_rate'', hv)]\<rparr>"

section \<open>Basic facts\<close>

declare str_of_nat.simps [simp del]

lemma as_dt_int_aware:
  "isinstance_int x \<Longrightarrow> as_dt x = Inr v \<Longrightarrow> \<exists>d. v = PyDatetime d \<and> tzinfo d = Some 0"
  by (cases x)
     (auto simp: as_dt_def fromtimestamp_utc_def Let_def split: sum.splits if_splits prod.splits)

lemma as_dt_aware_fixed:
  "tzinfo d \<noteq> None \<Longrightarrow> as_dt (PyDatetime d) = Inr (PyDatetime d)"
  by (simp add: as_dt_def)

lemma run_loop_append:
  "run_loop st (xs @ ys) =
     (case run_loop st xs of Inl e \<Rightarrow> Inl e | Inr st' \<Rightarrow> run_loop st' ys)"
  by (induction xs arbitrary: st) (auto split: sum.splits)

lemma loop_body_definition:
  "is_definition_record r \<Longrightarrow> loop_body st r = Inr st"
  by (simp add: loop_body_def is_definition_record_def)

lemma loop_body_not_passing:
  "\<not> passes_filters r \<Longrightarrow> loop_body st r = Inr st"
  by (auto simp: loop_body_def passes_filters_def is_definition_record_def Let_def)

lemma run_loop_no_passing:
  "\<forall>r\<in>set recs. \<not> passes_filters r \<Longrightarrow> run_loop st recs = Inr st"
  by (induction recs arbitrary: st) (auto simp: loop_body_not_passing)

lemma getattr_present: "py_hasattr m n \<Longrightarrow> py_getattr m n d = py_getattr m n d'"
  by (cases m) (auto split: option.splits)

lemma getattr_absent: "\<not> py_hasattr m n \<Longrightarrow> py_getattr m n d = d"
  by (cases m) (auto split: option.splits)

lemma scan_fields_find:
  "scan_fields fs n = (case find (named n) fs of None \<Rightarrow> PyNone | Some f \<Rightarrow> spec_entry_value f)"
  by (induction fs) (simp_all add: named_def spec_entry_value_def)

lemma find_field_find:
  "find_field fs n = (case find (named n) fs of None \<Rightarrow> PyNone | Some f \<Rightarrow> f)"
  by (induction fs) (simp_all add: named_def)

lemma find_named_not_None: "find (named n) fs = Some f \<Longrightarrow> f \<noteq> PyNone"
  by (auto simp: find_Some_iff named_def)

lemma field_value_from_fields_ok:
  "fields_ok msg \<Longrightarrow>
     field_value_from_fields msg n =
       Inr (case find (named n) (field_entries msg) of
              None \<Rightarrow> PyNone | Some f \<Rightarrow> spec_entry_value f)"
proof (cases "py_hasattr msg ''fields''")
  case True
  assume ok: "fields_ok msg"
  from True have g: "py_getattr msg ''fields'' PyNone = py_getattr msg ''fields'' (PyList [])"
    by (rule getattr_present)
  from True have "msg \<noteq> PyNone" by auto
  with True ok show ?thesis
    by (auto simp: field_value_from_fields_def fields_ok_def field_entries_def g scan_fields_find
             split: sum.splits)
next
  case False
  then have "py_getattr msg ''fields'' (PyList []) = PyList []"
    by (rule getattr_absent)
  with False show ?thesis
    by (simp add: field_value_from_fields_def field_entries_def)
qed

lemma field_by_name_ok:
  "fields_ok msg \<Longrightarrow>
     field_by_name msg n =
       Inr (case find (named n) (field_entries msg) of None \<Rightarrow> PyNone | Some f \<Rightarrow> f)"
proof (cases "py_hasattr msg ''fields''")
  case True
  assume ok: "fields_ok msg"
  from True have g: "py_getattr msg ''fields'' PyNone = py_getattr msg ''fields'' (PyList [])"
    by (rule getattr_present)
  from True have "msg \<noteq> PyNone" by auto
  with True ok show ?thesis
    by (auto simp: field_by_name_def fields_ok_def field_entries_def g find_field_find
             split: sum.splits)
next
  case False
  then have "py_getattr msg ''fields'' (PyList []) = PyList []"
    by (rule getattr_absent)
  with False show ?thesis
    by (simp add: field_by_name_def field_entries_def)
qed

lemma set_update_subset: "set (AList.update k v al) \<subseteq> insert (k, v) (set al)"
  by (induction al) auto

lemma loop_body_passing:
  "passes_filters r \<Longrightarrow>
     loop_body st r =
       (case msg_value (message r) ''timestamp'' of
          Inl e \<Rightarrow> Inl e
        | Inr raw_ts \<Rightarrow>
            (case (if isinstance_int raw_ts
                   then (case as_dt raw_ts of Inl e \<Rightarrow> Inl e | Inr t \<Rightarrow> Inr (Some t))
                   else Inr (ts st)) of
               Inl e \<Rightarrow> Inl e
             | Inr ts' \<Rightarrow>
                 (case msg_value (message r) ''heart_rate'' of
                    Inl e \<Rightarrow> Inl e
                  | Inr hr \<Rightarrow>
                      (case ts' of
                         None \<Rightarrow> Inl UnboundLocalError
                       | Some t \<Rightarrow>
                           if t = PyNone \<or> hr = PyNone
                           then Inr (st\<lparr>record_msgs := record_msgs st + 1, ts := ts'\<rparr>)
                           else (case py_int hr of
                                   Inl e \<Rightarrow> Inl e
                                 | Inr n \<Rightarrow>
                                     Inr (st\<lparr>record_msgs := record_msgs st + 1, ts := ts',
                                              record_with_hr := record_with_hr st + 1,
                                              hr_by_time := AList.update t n (hr_by_time st)\<rparr>))))))"
  by (simp add: loop_body_def passes_filters_def is_definition_record_def Let_def
           split: sum.splits option.splits)

text \<open>The effect of one pass of the body, read off the state.\<close>

lemma loop_body_effect:
  assumes "loop_body st r = Inr st'"
  shows "(hr_by_time st' = hr_by_time st \<and> ts st' = ts st)
       \<or> (passes_filters r \<and>
           (\<exists>t. ts st' = Some t \<and> (normalized_from r t \<or> ts st = Some t) \<and>
              (hr_by_time st' = hr_by_time st
               \<or> (\<exists>n. coerced_from r n \<and> hr_by_time st' = AList.update t n (hr_by_time st)))))"
proof (cases "passes_filters r")
  case False
  with assms show ?thesis by (auto simp: loop_body_not_passing)
next
  case True
  from assms show ?thesis
    unfolding loop_body_passing [OF True] normalized_from_def coerced_from_def
    using True
    by (auto split: sum.splits option.splits if_splits)
qed

lemma series_inv_mono: "series_inv R st \<Longrightarrow> R \<subseteq> R' \<Longrightarrow> series_inv R' st"
  unfolding series_inv_def by (auto; blast)

lemma series_inv_step:
  assumes inv: "series_inv R st" and step: "loop_body st r = Inr st'"
  shows "series_inv (insert r R) st'"
proof -
  have inv': "series_inv (insert r R) st"
    using inv by (rule series_inv_mono) auto
  from loop_body_effect [OF step] show ?thesis
  proof
    assume "hr_by_time st' = hr_by_time st \<and> ts st' = ts st"
    with inv' show ?thesis by (simp add: series_inv_def)
  next
    assume "passes_filters r \<and>
           (\<exists>t. ts st' = Some t \<and> (normalized_from r t \<or> ts st = Some t) \<and>
              (hr_by_time st' = hr_by_time st
               \<or> (\<exists>n. coerced_from r n \<and> hr_by_time st' = AList.update t n (hr_by_time st))))"
    then obtain t where t: "ts st' = Some t"
      and src: "normalized_from r t \<or> ts st = Some t"
      and upd: "hr_by_time st' = hr_by_time st
               \<or> (\<exists>n. coerced_from r n \<and> hr_by_time st' = AList.update t n (hr_by_time st))"
      by blast
    from src inv' have kt: "\<exists>r'\<in>insert r R. normalized_from r' t"
      by (auto simp: series_inv_def)
    from upd show ?thesis
    proof
      assume "hr_by_time st' = hr_by_time st"
      with inv' t kt show ?thesis by (simp add: series_inv_def)
    next
      assume "\<exists>n. coerced_from r n \<and> hr_by_time st' = AList.update t n (hr_by_time st)"
      then obtain n where n: "coerced_from r n"
        and h: "hr_by_time st' = AList.update t n (hr_by_time st)" by blast
      have "\<forall>(k, v)\<in>set (hr_by_time st').
              (\<exists>r'\<in>insert r R. normalized_from r' k) \<and> (\<exists>r'\<in>insert r R. coerced_from r' v)"
      proof (clarify)
        fix k v assume "(k, v) \<in> set (hr_by_time st')"
        with h set_update_subset [of t n "hr_by_time st"]
        have "(k, v) = (t, n) \<or> (k, v) \<in> set (hr_by_time st)" by auto
        then show "(\<exists>r'\<in>insert r R. normalized_from r' k) \<and> (\<exists>r'\<in>insert r R. coerced_from r' v)"
        proof
          assume "(k, v) = (t, n)"
          with kt n show ?thesis by auto
        next
          assume "(k, v) \<in> set (hr_by_time st)"
          with inv' show ?thesis by (auto simp: series_inv_def)
        qed
      qed
      with t kt show ?thesis by (simp add: series_inv_def)
    qed
  qed
qed

lemma series_inv_run:
  "series_inv R st \<Longrightarrow> run_loop st recs = Inr st' \<Longrightarrow> series_inv (R \<union> set recs) st'"
proof (induction recs arbitrary: R st)
  case Nil
  then show ?case by simp
next
  case (Cons r recs)
  from Cons.prems(2) obtain st1 where b: "loop_body st r = Inr st1"
    and rest: "run_loop st1 recs = Inr st'"
    by (auto split: sum.splits)
  from series_inv_step [OF Cons.prems(1) b] have "series_inv (insert r R) st1" .
  from Cons.IH [OF this rest] show ?case by simp
qed

lemma series_inv_init: "series_inv {} init_state"
  by (simp add: series_inv_def init_state_def)

lemma normalized_from_aware:
  "normalized_from r k \<Longrightarrow> \<exists>d. k = PyDatetime d \<and> tzinfo d = Some 0"
  by (auto simp: normalized_from_def split: sum.splits dest: as_dt_int_aware)

lemma loop_body_distinct:
  assumes "loop_body st r = Inr st'" and "distinct (map fst (hr_by_time st))"
  shows "distinct (map fst (hr_by_time st'))"
  using loop_body_effect [OF assms(1)] assms(2)
  by (auto simp: distinct_update)

lemma run_loop_distinct:
  "run_loop st recs = Inr st' \<Longrightarrow> distinct (map fst (hr_by_time st)) \<Longrightarrow>
     distinct (map fst (hr_by_time st'))"
proof (induction recs arbitrary: st)
  case Nil
  then show ?case by simp
next
  case (Cons r recs)
  from Cons.prems(1) obtain st1 where b: "loop_body st r = Inr st1"
    and rest: "run_loop st1 recs = Inr st'"
    by (auto split: sum.splits)
  from loop_body_distinct [OF b Cons.prems(2)] Cons.IH [OF rest] show ?case by blast
qed

text \<open>A qualifying record stores its own heart rate under its own timestamp.\<close>

lemma loop_body_stamped:
  assumes k: "normalized_from r k"
    and hr: "msg_value (message r) ''heart_rate'' = Inr hr"
  shows "loop_body st r =
           (if hr = PyNone
            then Inr (st\<lparr>record_msgs := record_msgs st + 1, ts := Some k\<rparr>)
            else case py_int hr of
                   Inl e \<Rightarrow> Inl e
                 | Inr n \<Rightarrow>
                     Inr (st\<lparr>record_msgs := record_msgs st + 1, ts := Some k,
                              record_with_hr := record_with_hr st + 1,
                              hr_by_time := AList.update k n (hr_by_time st)\<rparr>))"
proof -
  from k have p: "passes_filters r" by (simp add: normalized_from_def)
  from k obtain raw where raw: "msg_value (message r) ''timestamp'' = Inr raw"
    and i: "isinstance_int raw" and a: "as_dt raw = Inr k"
    by (auto simp: normalized_from_def split: sum.splits)
  from k have "k \<noteq> PyNone"
    using normalized_from_aware by blast
  then show ?thesis
    by (simp add: loop_body_passing [OF p] raw i a hr)
qed

lemma loop_body_qualifying:
  assumes step: "loop_body st r = Inr st'"
    and k: "normalized_from r k" and h: "has_heart_rate r"
  shows "\<exists>v. coerced_from r v \<and> map_of (hr_by_time st') k = Some v"
proof -
  from k have p: "passes_filters r" by (simp add: normalized_from_def)
  from h obtain hr where hr: "msg_value (message r) ''heart_rate'' = Inr hr"
    and nn: "hr \<noteq> PyNone"
    by (auto simp: has_heart_rate_def split: sum.splits)
  from step nn obtain n where n: "py_int hr = Inr n"
    and st': "st' = st\<lparr>record_msgs := record_msgs st + 1, ts := Some k,
                       record_with_hr := record_with_hr st + 1,
                       hr_by_time := AList.update k n (hr_by_time st)\<rparr>"
    unfolding loop_body_stamped [OF k hr] by (cases "py_int hr") auto
  from p hr nn n have "coerced_from r n"
    by (simp add: coerced_from_def)
  moreover from st' have "map_of (hr_by_time st') k = Some n"
    by (simp add: update_conv')
  ultimately show ?thesis by blast
qed

lemma loop_body_leaves_alone:
  assumes step: "loop_body st z = Inr st'" and la: "leaves_alone k z"
  shows "map_of (hr_by_time st') k = map_of (hr_by_time st) k"
proof -
  from loop_body_effect [OF step] show ?thesis
  proof
    assume "hr_by_time st' = hr_by_time st \<and> ts st' = ts st"
    then show ?thesis by simp
  next
    assume e: "passes_filters z \<and>
           (\<exists>t. ts st' = Some t \<and> (normalized_from z t \<or> ts st = Some t) \<and>
              (hr_by_time st' = hr_by_time st
               \<or> (\<exists>n. coerced_from z n \<and> hr_by_time st' = AList.update t n (hr_by_time st))))"
    then have p: "passes_filters z" by simp
    from la p have "msg_value (message z) ''heart_rate'' = Inr PyNone
                    \<or> (\<exists>k'. k' \<noteq> k \<and> normalized_from z k')"
      by (simp add: leaves_alone_def)
    then show ?thesis
    proof
      assume n: "msg_value (message z) ''heart_rate'' = Inr PyNone"
      then have "\<not> coerced_from z n'" for n'
        by (simp add: coerced_from_def)
      with e show ?thesis by auto
    next
      assume "\<exists>k'. k' \<noteq> k \<and> normalized_from z k'"
      then obtain k' where ne: "k' \<noteq> k" and k': "normalized_from z k'" by blast
      from step p obtain hr where hr: "msg_value (message z) ''heart_rate'' = Inr hr"
        unfolding loop_body_passing [OF p]
        by (cases "msg_value (message z) ''heart_rate''") (auto split: sum.splits)
      from step ne show ?thesis
        unfolding loop_body_stamped [OF k' hr]
        by (cases "py_int hr") (auto simp: update_conv' split: if_splits)
    qed
  qed
qed

lemma run_loop_leaves_alone:
  "run_loop st zs = Inr st' \<Longrightarrow> \<forall>z\<in>set zs. leaves_alone k z \<Longrightarrow>
     map_of (hr_by_time st') k = map_of (hr_by_time st) k"
proof (induction zs arbitrary: st)
  case Nil
  then show ?case by simp
next
  case (Cons z zs)
  from Cons.prems(1) obtain st1 where b: "loop_body st z = Inr st1"
    and rest: "run_loop st1 zs = Inr st'"
    by (auto split: sum.splits)
  from Cons.prems(2) have "leaves_alone k z" and "\<forall>z\<in>set zs. leaves_alone k z" by auto
  with loop_body_leaves_alone [OF b] Cons.IH [OF rest] show ?case by simp
qed

section \<open>Rounding of the division and of the microseconds\<close>

lemma round_half_even_of_int: "round_half_even (of_int k) = k"
  by (simp add: round_half_even_def)

lemma round_half_even_error: "\<bar>of_int (round_half_even x) - x\<bar> \<le> 1 / 2"
  unfolding round_half_even_def Let_def
  by (auto simp: abs_if not_less) linarith+

lemma round_half_even_near:
  assumes "\<bar>x - of_int k\<bar> < 1 / 2"
  shows "round_half_even x = k"
proof -
  from assms have "of_int k - 1 / 2 < x" "x < of_int k + 1 / 2" by (auto simp: abs_if split: if_splits)
  show ?thesis
  proof (cases "of_int k \<le> x")
    case True
    with \<open>x < of_int k + 1 / 2\<close> have "\<lfloor>x\<rfloor> = k" by linarith
    with \<open>x < of_int k + 1 / 2\<close> show ?thesis
      by (simp add: round_half_even_def Let_def)
  next
    case False
    with \<open>of_int k - 1 / 2 < x\<close> have f: "\<lfloor>x\<rfloor> = k - 1" by linarith
    with \<open>of_int k - 1 / 2 < x\<close> show ?thesis
      by (simp add: round_half_even_def Let_def)
  qed
qed

lemma ilog2_lower:
  assumes "0 < x"
  shows "2 powi (ilog2 x) \<le> x"
proof (cases "1 \<le> x")
  case True
  then have p: "0 < \<lfloor>x\<rfloor>" by linarith
  from bitlen_bounds [OF p] have "2 ^ nat (bitlen \<lfloor>x\<rfloor> - 1) \<le> \<lfloor>x\<rfloor>" by simp
  then have "(of_int (2 ^ nat (bitlen \<lfloor>x\<rfloor> - 1)) :: rat) \<le> of_int \<lfloor>x\<rfloor>"
    by (simp only: of_int_le_iff)
  also have "(of_int \<lfloor>x\<rfloor> :: rat) \<le> x" by simp
  finally have "(of_int (2 ^ nat (bitlen \<lfloor>x\<rfloor> - 1)) :: rat) \<le> x" .
  then have "(2::rat) ^ nat (bitlen \<lfloor>x\<rfloor> - 1) \<le> x"
    by simp
  moreover from p have "1 \<le> bitlen \<lfloor>x\<rfloor>"
    by (simp add: bitlen_alt_def)
  ultimately show ?thesis using True
    by (simp add: ilog2_def power_int_def)
next
  case False
  with assms have r: "1 < 1 / x" by simp
  define c where "c = \<lceil>1 / x\<rceil> - 1"
  from r have c: "0 < c" unfolding c_def by linarith
  from bitlen_bounds [OF c] have "c < 2 ^ nat (bitlen c)" by simp
  then have "c + 1 \<le> 2 ^ nat (bitlen c)" by simp
  then have "(of_int (c + 1) :: rat) \<le> of_int (2 ^ nat (bitlen c))"
    by (simp only: of_int_le_iff)
  moreover have "1 / x \<le> of_int (c + 1)"
    unfolding c_def by simp
  ultimately have "1 / x \<le> of_int (2 ^ nat (bitlen c))"
    by (rule order_trans [rotated])
  then have "1 / x \<le> 2 ^ nat (bitlen c)"
    by simp
  with assms have "1 \<le> x * 2 ^ nat (bitlen c)"
    by (simp add: field_simps)
  then have "1 / 2 ^ nat (bitlen c) \<le> x"
    by (simp add: field_simps)
  moreover from c have "1 \<le> bitlen c" by (simp add: bitlen_alt_def)
  ultimately show ?thesis using False
    by (simp add: ilog2_def c_def power_int_def inverse_eq_divide power_one_over split: if_splits)
qed


lemma ilog2_upper:
  assumes "0 < x" and "x < 2 ^ N"
  shows "ilog2 x < int N"
proof -
  from ilog2_lower [OF assms(1)] assms(2) have "(2::rat) powi (ilog2 x) < 2 powi (int N)"
    by simp
  then show ?thesis
    by (rule power_int_le_imp_less_exp [rotated]) simp_all
qed

lemma double_round_error:
  assumes "q \<noteq> 0" and "\<bar>q\<bar> < 2 ^ N"
  shows "\<bar>double_round q - q\<bar> \<le> 2 powi (int N - 53) / 2"
proof -
  define u :: rat where "u = 2 powi (ilog2 \<bar>q\<bar> - 52)"
  have u: "0 < u" by (simp add: u_def)
  from assms have "ilog2 \<bar>q\<bar> < int N"
    by (intro ilog2_upper) simp_all
  then have "ilog2 \<bar>q\<bar> - 52 \<le> int N - 53" by simp
  then have ub: "u \<le> 2 powi (int N - 53)"
    unfolding u_def by (rule power_int_increasing) simp
  have d: "double_round q = of_int (round_half_even (q / u)) * u"
    using assms(1) by (simp add: double_round_def u_def Let_def)
  have "double_round q - q = (of_int (round_half_even (q / u)) - q / u) * u"
    using u by (simp add: d field_simps)
  then have "\<bar>double_round q - q\<bar> = \<bar>of_int (round_half_even (q / u)) - q / u\<bar> * u"
    using u by (simp add: abs_mult)
  also have "\<dots> \<le> (1 / 2) * u"
    using round_half_even_error [of "q / u"] u by (intro mult_right_mono) simp_all
  also have "\<dots> \<le> 2 powi (int N - 53) / 2"
    using ub by simp
  finally show ?thesis .
qed

lemma double_round_int_exact:
  assumes "\<bar>n\<bar> < 2 ^ 53"
  shows "double_round (of_int n) = of_int n"
proof (cases "n = 0")
  case True
  then show ?thesis by (simp add: double_round_def)
next
  case False
  define e where "e = ilog2 \<bar>of_int n\<bar>"
  define j where "j = nat (52 - e)"
  from assms have "\<bar>(of_int n :: rat)\<bar> < 2 ^ 53"
    by (metis of_int_abs of_int_less_iff of_int_numeral of_int_power)
  with False have "e < int 53"
    unfolding e_def by (intro ilog2_upper) simp_all
  then have ej: "e - 52 = - int j" by (simp add: j_def)
  have u: "(2::rat) powi (e - 52) = 1 / 2 ^ j"
    unfolding ej by (simp add: power_int_minus_divide)
  have "of_int n / (1 / 2 ^ j) = (of_int (n * 2 ^ j) :: rat)"
    by simp
  then have "round_half_even (of_int n / (1 / 2 ^ j)) = n * 2 ^ j"
    by (simp only: round_half_even_of_int)
  with False show ?thesis
    by (simp add: double_round_def Let_def e_def [symmetric] u)
qed


lemma micros_rounding:
  assumes near: "\<bar>x - of_int k\<bar> \<le> 1000000 / 2097152" and small: "\<bar>x\<bar> < 1000000"
  shows "round_half_even (double_round x) = k"
proof (cases "x = 0")
  case True
  with near have "\<bar>(0::rat) - of_int k\<bar> < 1 / 2" by simp
  then have "round_half_even 0 = k" by (rule round_half_even_near)
  with True show ?thesis by (simp add: double_round_def)
next
  case False
  from small have "\<bar>x\<bar> < 2 ^ 20" by simp
  from double_round_error [OF False this]
  have "\<bar>double_round x - x\<bar> \<le> 1 / 17179869184"
    by (simp add: power_int_minus_divide)
  with near have "\<bar>double_round x - of_int k\<bar> < 1 / 2"
    by (simp add: abs_if split: if_splits)
  then show ?thesis by (rule round_half_even_near)
qed

lemma quotient_rounding:
  assumes "q \<noteq> 0" and "\<bar>q\<bar> < 8589934592"
  shows "\<bar>double_round q - q\<bar> \<le> 1 / 2097152"
proof -
  from assms(2) have "\<bar>q\<bar> < 2 ^ 33" by simp
  from double_round_error [OF assms(1) this] show ?thesis
    by (simp add: power_int_minus_divide)
qed


text \<open>
  The seconds and microseconds that \<open>fromtimestamp_utc\<close> reads off a double \<open>d\<close> lying
  within \<open>1 / 2097152\<close> of \<open>n + m / 1000\<close>.
\<close>

lemma fromtimestamp_split:
  assumes m: "0 < m" "m < 1000"
    and d: "\<bar>d - (of_int n + of_int m / 1000)\<bar> \<le> 1 / 2097152"
    and n: "MIN_SECONDS \<le> n" "n \<le> MAX_SECONDS"
  shows "fromtimestamp_utc d = Inr \<lparr>wall = n * 1000000 + 1000 * m, tzinfo = Some 0\<rparr>"
proof -
  from m have mr: "(1::rat) \<le> of_int m" "(of_int m :: rat) \<le> 999"
    by simp_all
  from d mr have lo: "of_int n < d" and hi: "d < of_int n + 1"
    by (simp_all add: abs_if split: if_splits)
  show ?thesis
  proof (cases "0 \<le> n")
    case True
    with lo have "0 \<le> d" by simp
    moreover from lo hi have fl: "\<lfloor>d\<rfloor> = n" by linarith
    ultimately have tr: "trunc d = n" by (simp add: trunc_def)
    have "\<bar>(d - of_int n) * 1000000 - of_int (1000 * m)\<bar>
            = \<bar>d - (of_int n + of_int m / 1000)\<bar> * 1000000"
      by (simp add: abs_if field_simps)
    with d have near: "\<bar>(d - of_int n) * 1000000 - of_int (1000 * m)\<bar> \<le> 1000000 / 2097152"
      by simp
    from lo hi have small: "\<bar>(d - of_int n) * 1000000\<bar> < 1000000"
      by (simp add: abs_if)
    from micros_rounding [OF near small]
    have us: "round_half_even (double_round ((d - of_int n) * 1000000)) = 1000 * m" .
    show ?thesis
      unfolding fromtimestamp_utc_def Let_def tr us using m n by simp
  next
    case False
    with hi have "d < 0" by simp
    moreover from lo hi have "\<lceil>d\<rceil> = n + 1" by linarith
    ultimately have tr: "trunc d = n + 1" by (simp add: trunc_def)
    have "\<bar>(d - of_int (n + 1)) * 1000000 - of_int (1000 * m - 1000000)\<bar>
            = \<bar>d - (of_int n + of_int m / 1000)\<bar> * 1000000"
      by (simp add: abs_if field_simps)
    with d have near: "\<bar>(d - of_int (n + 1)) * 1000000 - of_int (1000 * m - 1000000)\<bar>
                         \<le> 1000000 / 2097152"
      by simp
    from lo hi have small: "\<bar>(d - of_int (n + 1)) * 1000000\<bar> < 1000000"
      by (simp add: abs_if)
    from micros_rounding [OF near small]
    have us: "round_half_even (double_round ((d - of_int (n + 1)) * 1000000))
                = 1000 * m - 1000000" .
    show ?thesis
      unfolding fromtimestamp_utc_def Let_def tr us using m n by simp
  qed
qed

lemma fromtimestamp_whole:
  assumes "MIN_SECONDS \<le> n" "n \<le> MAX_SECONDS"
  shows "fromtimestamp_utc (of_int n) = Inr \<lparr>wall = n * 1000000, tzinfo = Some 0\<rparr>"
proof -
  have "trunc (of_int n) = n" by (simp add: trunc_def)
  moreover have "round_half_even (double_round 0) = 0"
    by (simp add: double_round_def round_half_even_def)
  ultimately show ?thesis using assms
    by (simp add: fromtimestamp_utc_def Let_def)
qed

lemma fromtimestamp_of_ms:
  assumes "\<bar>t\<bar> < 8589934592000"
  shows "fromtimestamp_utc (py_truediv t 1000) = Inr \<lparr>wall = 1000 * t, tzinfo = Some 0\<rparr>"
proof -
  define n where "n = t div 1000"
  define m where "m = t mod 1000"
  have t: "t = n * 1000 + m" by (simp add: n_def m_def)
  have m: "0 \<le> m" "m < 1000" by (simp_all add: m_def)
  from assms have nb: "- 8589934592 \<le> n" "n < 8589934592"
    unfolding n_def by (simp_all add: abs_if split: if_splits)
  then have rng: "MIN_SECONDS \<le> n" "n \<le> MAX_SECONDS"
    by (simp_all add: MIN_SECONDS_def MAX_SECONDS_def)
  have q: "(of_int t :: rat) / of_int 1000 = of_int n + of_int m / 1000"
    by (simp add: t)
  show ?thesis
  proof (cases "m = 0")
    case True
    from nb have "\<bar>n\<bar> < 2 ^ 53" by simp
    then have "double_round (of_int n) = of_int n" by (rule double_round_int_exact)
    with True q have "py_truediv t 1000 = of_int n"
      by (simp add: py_truediv_def)
    with fromtimestamp_whole [OF rng] True t show ?thesis by simp
  next
    case False
    with m have mp: "0 < m" by simp
    from assms have "\<bar>(of_int t :: rat)\<bar> < 8589934592000"
      by (metis of_int_abs of_int_less_iff of_int_numeral)
    then have qb: "\<bar>(of_int t :: rat) / of_int 1000\<bar> < 8589934592"
      by simp
    from False have "t \<noteq> 0" by (auto simp: m_def)
    then have qn: "(of_int t :: rat) / of_int 1000 \<noteq> 0" by simp
    from quotient_rounding [OF qn qb]
    have "\<bar>py_truediv t 1000 - (of_int n + of_int m / 1000)\<bar> \<le> 1 / 2097152"
      by (simp only: py_truediv_def q)
    from fromtimestamp_split [OF mp m(2) this rng] t show ?thesis
      by (simp add: algebra_simps)
  qed
qed

section \<open>The Timestamp Normalizer\<close>

text \<open>
  Claim C4. Normalising twice is normalising once: for every integer \<open>t\<close>, feeding the
  result of \<open>_as_dt(t)\<close> back into \<open>_as_dt\<close> gives that same result (and where the first
  call raises, so does the composition), because a datetime that carries timezone
  information is returned unchanged.
\<close>

theorem as_dt_idempotent:
  "(case as_dt (PyInt t) of Inl e \<Rightarrow> Inl e | Inr v \<Rightarrow> as_dt v) = as_dt (PyInt t)
   \<and> as_dt (PyDatetime (d\<lparr>tzinfo := Some z\<rparr>)) = Inr (PyDatetime (d\<lparr>tzinfo := Some z\<rparr>))"
proof
  show "(case as_dt (PyInt t) of Inl e \<Rightarrow> Inl e | Inr v \<Rightarrow> as_dt v) = as_dt (PyInt t)"
  proof (cases "as_dt (PyInt t)")
    case (Inl e)
    then show ?thesis by simp
  next
    case (Inr v)
    then obtain d where "v = PyDatetime d" "tzinfo d = Some 0"
      using as_dt_int_aware [of "PyInt t" v] by auto
    with Inr show ?thesis by (simp add: as_dt_aware_fixed)
  qed
  show "as_dt (PyDatetime (d\<lparr>tzinfo := Some z\<rparr>)) = Inr (PyDatetime (d\<lparr>tzinfo := Some z\<rparr>))"
    by (simp add: as_dt_def)
qed

theorem as_dt_idempotent_witness:
  "as_dt (PyInt 1000) = Inr (PyDatetime \<lparr>wall = 1000000, tzinfo = Some 0\<rparr>)
   \<and> as_dt (PyDatetime \<lparr>wall = 1000000, tzinfo = Some 0\<rparr>)
       = Inr (PyDatetime \<lparr>wall = 1000000, tzinfo = Some 0\<rparr>)"
proof -
  have a: "as_dt (PyInt 1000) = Inr (PyDatetime \<lparr>wall = 1000000, tzinfo = Some 0\<rparr>)"
    by code_simp
  from as_dt_idempotent [of 1000] a show ?thesis by simp
qed

text \<open>
  Claim C5, as the code has it. For every integer \<open>t\<close> of magnitude below
  \<open>8589934592000\<close> (1000 times the 33rd power of 2), \<open>_as_dt\<close> returns the UTC instant
  exactly \<open>t\<close> milliseconds after the Unix epoch; in particular \<open>1700000000000\<close> gives
  2023-11-14T22:13:20Z.
\<close>

theorem as_dt_epoch_milliseconds:
  "(\<bar>t\<bar> < 8589934592000 \<longrightarrow>
      as_dt (PyInt t) = Inr (PyDatetime \<lparr>wall = 1000 * t, tzinfo = Some 0\<rparr>))
   \<and> as_dt (PyInt 1700000000000) = Inr (PyDatetime (utc_datetime 2023 11 14 22 13 20))"
proof
  show "\<bar>t\<bar> < 8589934592000 \<longrightarrow>
      as_dt (PyInt t) = Inr (PyDatetime \<lparr>wall = 1000 * t, tzinfo = Some 0\<rparr>)"
  proof
    assume "\<bar>t\<bar> < 8589934592000"
    then have "fromtimestamp_utc (py_truediv t 1000) = Inr \<lparr>wall = 1000 * t, tzinfo = Some 0\<rparr>"
      by (rule fromtimestamp_of_ms)
    then show "as_dt (PyInt t) = Inr (PyDatetime \<lparr>wall = 1000 * t, tzinfo = Some 0\<rparr>)"
      by (simp add: as_dt_def)
  qed
  have "\<bar>1700000000000 :: int\<bar> < 8589934592000" by simp
  then have "fromtimestamp_utc (py_truediv 1700000000000 1000)
               = Inr \<lparr>wall = 1000 * 1700000000000, tzinfo = Some 0\<rparr>"
    by (rule fromtimestamp_of_ms)
  moreover have "utc_datetime 2023 11 14 22 13 20 = \<lparr>wall = 1000 * 1700000000000, tzinfo = Some 0\<rparr>"
    by (simp add: utc_datetime_def days_from_civil_def)
  ultimately show "as_dt (PyInt 1700000000000) = Inr (PyDatetime (utc_datetime 2023 11 14 22 13 20))"
    by (simp add: as_dt_def)
qed

theorem as_dt_epoch_milliseconds_witness:
  "\<bar>1000 :: int\<bar> < 8589934592000
   \<and> as_dt (PyInt 1000) = Inr (PyDatetime \<lparr>wall = 1000000, tzinfo = Some 0\<rparr>)"
proof -
  have h: "\<bar>1000 :: int\<bar> < 8589934592000" by simp
  from as_dt_epoch_milliseconds [of 1000] h show ?thesis by simp
qed

text \<open>
  Claim C5, as stated, fails. The integer \<open>8589934592001\<close> is normalised to an instant one
  microsecond short of \<open>8589934592.001\<close> seconds after the epoch, because the quotient
  \<open>int(x) / 1000\<close> is a double; and \<open>253402300800000\<close>, the first millisecond of the year
  10000, makes \<open>fromtimestamp\<close> raise.
\<close>

theorem as_dt_not_every_integer:
  "as_dt (PyInt 8589934592001)
     = Inr (PyDatetime \<lparr>wall = 8589934592000999, tzinfo = Some 0\<rparr>)
   \<and> as_dt (PyInt 8589934592001)
     \<noteq> Inr (PyDatetime \<lparr>wall = 1000 * 8589934592001, tzinfo = Some 0\<rparr>)
   \<and> as_dt (PyInt 253402300800000) = Inl OutOfRange"
  by code_simp

section \<open>The Series Builder\<close>

text \<open>
  Claim C7. A record flagged as a definition record contributes no sample, whatever
  fields it carries: the loop body leaves the state as it is, and the function gives
  the same printed lines and the same result with the record as without it.
\<close>

theorem definition_record_contributes_nothing:
  "is_definition_record r \<Longrightarrow>
     loop_body st r = Inr st
     \<and> extract_polar_hr_series (xs @ r # ys) = extract_polar_hr_series (xs @ ys)"
proof -
  assume d: "is_definition_record r"
  have b: "loop_body st' r = Inr st'" for st'
    using d by (rule loop_body_definition)
  have "run_loop init_state (xs @ r # ys) = run_loop init_state (xs @ ys)"
    by (simp add: run_loop_append b split: sum.splits)
  then have "extract_polar_hr_series (xs @ r # ys) = extract_polar_hr_series (xs @ ys)"
    by (simp add: extract_polar_hr_series_def)
  with b show ?thesis by simp
qed

theorem definition_record_contributes_nothing_witness:
  "is_definition_record (definition_record (PyInt 5) (PyInt 7))
   \<and> extract_polar_hr_series
        [definition_record (PyInt 5) (PyInt 7), data_record (PyInt 1000) (PyInt 120)]
     = extract_polar_hr_series [data_record (PyInt 1000) (PyInt 120)]"
proof -
  have d: "is_definition_record (definition_record (PyInt 5) (PyInt 7))"
    by code_simp
  from definition_record_contributes_nothing
         [OF d, of init_state "[]" "[data_record (PyInt 1000) (PyInt 120)]"] d
  show ?thesis by simp
qed

text \<open>
  The empty check after the loop: when the loop runs to its end with an empty dictionary,
  and in particular when no record passes the two filters, the function raises
  \<open>RuntimeError\<close>; and it never returns an empty series.
\<close>

lemma empty_dictionary_raises:
  "(run_loop init_state recs = Inr st \<and> hr_by_time st = []
      \<longrightarrow> extract_polar_hr_series recs = ([], Inl RuntimeError))
   \<and> ((\<forall>r\<in>set recs. \<not> passes_filters r)
      \<longrightarrow> extract_polar_hr_series recs = ([], Inl RuntimeError))
   \<and> snd (extract_polar_hr_series recs) \<noteq> Inr []
   \<and> (snd (extract_polar_hr_series recs) = Inr s \<longrightarrow> s \<noteq> [])"
proof (intro conjI impI)
  assume "run_loop init_state recs = Inr st \<and> hr_by_time st = []"
  then show "extract_polar_hr_series recs = ([], Inl RuntimeError)"
    by (simp add: extract_polar_hr_series_def)
next
  assume "\<forall>r\<in>set recs. \<not> passes_filters r"
  then have "run_loop init_state recs = Inr init_state"
    by (rule run_loop_no_passing)
  then show "extract_polar_hr_series recs = ([], Inl RuntimeError)"
    by (simp add: extract_polar_hr_series_def init_state_def)
next
  show "snd (extract_polar_hr_series recs) \<noteq> Inr []"
    by (cases "run_loop init_state recs") (auto simp: extract_polar_hr_series_def)
next
  assume "snd (extract_polar_hr_series recs) = Inr s"
  then show "s \<noteq> []"
    by (cases "run_loop init_state recs")
       (auto simp: extract_polar_hr_series_def split: if_splits)
qed

text \<open>
  Claim C3, on the code. A pass over records that offer no sample does not always end
  in the empty-result error. A record that passes the filters with neither a timestamp
  nor a heart rate, coming first, stops the function with \<open>UnboundLocalError\<close> at the
  test of the unbound \<open>ts\<close>. And after a record with a timestamp but no heart rate, a
  record with a heart rate but no timestamp is stored under the first one's timestamp,
  so the function returns a series although no record carried both.
\<close>

theorem empty_pass_not_empty_result:
  "extract_polar_hr_series [data_record PyNone PyNone] = ([], Inl UnboundLocalError)
   \<and> extract_polar_hr_series [data_record (PyInt 1000) PyNone, data_record PyNone (PyInt 125)]
     = ([''[Polar] record messages: 2'', ''[Polar] records with HR: 1'',
         ''[Polar] HR samples extracted: 1''],
        Inr [(PyDatetime \<lparr>wall = 1000000, tzinfo = Some 0\<rparr>, 125)])"
  by code_simp

text \<open>
  Claim C10. The three counters are printed exactly when the call returns: whenever the
  function raises (the empty-result error included) it has printed nothing, and whenever
  it returns, the series is non-empty and the three counter lines have been printed.
\<close>

theorem counters_printed_iff_returned:
  "(case snd (extract_polar_hr_series recs) of
      Inl e \<Rightarrow> fst (extract_polar_hr_series recs) = []
    | Inr s \<Rightarrow> s \<noteq> [] \<and>
        (\<exists>st. run_loop init_state recs = Inr st \<and> s = hr_by_time st \<and>
           fst (extract_polar_hr_series recs) =
             [''[Polar] record messages: '' @ str_of_nat (record_msgs st),
              ''[Polar] records with HR: '' @ str_of_nat (record_with_hr st),
              ''[Polar] HR samples extracted: '' @ str_of_nat (length (hr_by_time st))]))"
proof (cases "run_loop init_state recs")
  case (Inl e)
  then show ?thesis
    by (simp add: extract_polar_hr_series_def)
next
  case (Inr st)
  show ?thesis
  proof (cases "hr_by_time st = []")
    case True
    with Inr show ?thesis
      by (simp add: extract_polar_hr_series_def)
  next
    case False
    with Inr show ?thesis
      by (simp add: extract_polar_hr_series_def)
  qed
qed

theorem counters_printed_iff_returned_witness:
  "fst (extract_polar_hr_series [definition_record (PyInt 5) (PyInt 7)]) = []
   \<and> fst (extract_polar_hr_series [data_record (PyInt 1000) (PyInt 120)]) \<noteq> []"
proof -
  have a: "snd (extract_polar_hr_series [definition_record (PyInt 5) (PyInt 7)])
             = Inl RuntimeError"
    by code_simp
  have b: "snd (extract_polar_hr_series [data_record (PyInt 1000) (PyInt 120)])
             = Inr [(PyDatetime \<lparr>wall = 1000000, tzinfo = Some 0\<rparr>, 120)]"
    by code_simp
  from counters_printed_iff_returned [of "[definition_record (PyInt 5) (PyInt 7)]"] a
  have 1: "fst (extract_polar_hr_series [definition_record (PyInt 5) (PyInt 7)]) = []"
    by simp
  from counters_printed_iff_returned [of "[data_record (PyInt 1000) (PyInt 120)]"] b
  have 2: "fst (extract_polar_hr_series [data_record (PyInt 1000) (PyInt 120)]) \<noteq> []"
    by auto
  from 1 2 show ?thesis by simp
qed

text \<open>
  Claim C9. Every key of the returned mapping is a timezone-aware UTC datetime that
  \<open>_as_dt\<close> produced from the integer timestamp of a record of the input, and every value
  is an integer: the \<open>int\<close> of the heart rate of a record of the input.
\<close>

theorem series_keys_and_values:
  "snd (extract_polar_hr_series recs) = Inr s \<Longrightarrow>
     \<forall>(k, v)\<in>set s.
        (\<exists>d. k = PyDatetime d \<and> tzinfo d = Some 0)
        \<and> (\<exists>r\<in>set recs. normalized_from r k)
        \<and> (\<exists>r\<in>set recs. coerced_from r v)"
proof -
  assume ret: "snd (extract_polar_hr_series recs) = Inr s"
  then obtain st where run: "run_loop init_state recs = Inr st" and s: "s = hr_by_time st"
    by (cases "run_loop init_state recs")
       (auto simp: extract_polar_hr_series_def split: if_splits)
  from series_inv_run [OF series_inv_init run] have inv: "series_inv (set recs) st"
    by simp
  show ?thesis
  proof (clarify)
    fix k v assume "(k, v) \<in> set s"
    with inv s have a: "\<exists>r\<in>set recs. normalized_from r k" and b: "\<exists>r\<in>set recs. coerced_from r v"
      by (auto simp: series_inv_def)
    from a normalized_from_aware have "\<exists>d. k = PyDatetime d \<and> tzinfo d = Some 0"
      by blast
    with a b show "(\<exists>d. k = PyDatetime d \<and> tzinfo d = Some 0)
        \<and> (\<exists>r\<in>set recs. normalized_from r k)
        \<and> (\<exists>r\<in>set recs. coerced_from r v)" by simp
  qed
qed

theorem series_keys_and_values_witness:
  "(\<exists>d. PyDatetime \<lparr>wall = 1000000, tzinfo = Some 0\<rparr> = PyDatetime d \<and> tzinfo d = Some 0)
   \<and> normalized_from (data_record (PyInt 1000) (PyInt 120))
         (PyDatetime \<lparr>wall = 1000000, tzinfo = Some 0\<rparr>)
   \<and> coerced_from (data_record (PyInt 1000) (PyInt 120)) 120"
proof -
  have a: "snd (extract_polar_hr_series [data_record (PyInt 1000) (PyInt 120)])
             = Inr [(PyDatetime \<lparr>wall = 1000000, tzinfo = Some 0\<rparr>, 120)]"
    by code_simp
  from series_keys_and_values [OF a] show ?thesis by simp
qed

text \<open>
  The assignment \<open>hr_by_time[ts] = int(hr)\<close> overwrites: when two records that pass the
  filters have integer timestamps normalised to the same instant \<open>k\<close> and heart rates
  other than \<open>None\<close>, and no record after the later one touches the entry at \<open>k\<close>, the
  returned series holds at \<open>k\<close> the \<open>int\<close> of the later record's heart rate; and the
  series has one entry per timestamp.
\<close>

lemma overwrite_undisturbed:
  assumes ret: "snd (extract_polar_hr_series (xs @ r1 # ys @ r2 # zs)) = Inr s"
    and r1: "normalized_from r1 k \<and> has_heart_rate r1"
    and r2: "normalized_from r2 k \<and> has_heart_rate r2"
    and zs: "\<forall>z\<in>set zs. leaves_alone k z"
  shows "(\<exists>v. coerced_from r2 v \<and> map_of s k = Some v) \<and> distinct (map fst s)"
proof -
  from ret obtain st where run: "run_loop init_state (xs @ r1 # ys @ r2 # zs) = Inr st"
    and s: "s = hr_by_time st"
    by (cases "run_loop init_state (xs @ r1 # ys @ r2 # zs)")
       (auto simp: extract_polar_hr_series_def split: if_splits)
  have "distinct (map fst (hr_by_time init_state))"
    by (simp add: init_state_def)
  with run have d: "distinct (map fst (hr_by_time st))"
    by (rule run_loop_distinct)
  from run have "run_loop init_state ((xs @ r1 # ys) @ r2 # zs) = Inr st" by simp
  then have "(case run_loop init_state (xs @ r1 # ys) of
                Inl e \<Rightarrow> Inl e | Inr sa \<Rightarrow> run_loop sa (r2 # zs)) = Inr st"
    by (simp only: run_loop_append)
  then obtain sa where "run_loop init_state (xs @ r1 # ys) = Inr sa"
    and "run_loop sa (r2 # zs) = Inr st"
    by (cases "run_loop init_state (xs @ r1 # ys)") auto
  then obtain sb where b: "loop_body sa r2 = Inr sb" and rest: "run_loop sb zs = Inr st"
    by (cases "loop_body sa r2") auto
  from loop_body_qualifying [OF b] r2 obtain v where v: "coerced_from r2 v"
    and m: "map_of (hr_by_time sb) k = Some v" by blast
  from run_loop_leaves_alone [OF rest zs] m have "map_of (hr_by_time st) k = Some v"
    by simp
  with v d s show ?thesis by auto
qed

text \<open>
  Claim C6, on the code. The later of two qualifying records with the same timestamp
  does not always determine the stored value: a record after them that passes the
  filters with a heart rate but no timestamp is stored under their timestamp, since
  \<open>ts\<close> still holds it, and its heart rate replaces theirs.
\<close>

theorem last_write_overwritten:
  "extract_polar_hr_series
     [data_record (PyInt 1000) (PyInt 100), data_record (PyInt 1000) (PyInt 110),
      data_record PyNone (PyInt 99)]
   = ([''[Polar] record messages: 3'', ''[Polar] records with HR: 3'',
       ''[Polar] HR samples extracted: 1''],
      Inr [(PyDatetime \<lparr>wall = 1000000, tzinfo = Some 0\<rparr>, 99)])"
  by code_simp

text \<open>
  Claim C1, on the code. A record that passes the filters and whose timestamp does not
  resolve to an integer is not skipped: the local \<open>ts\<close> keeps the datetime of the last
  record that had one, so the record's heart rate is stored under that earlier
  timestamp (here it overwrites the earlier sample); and when no earlier record bound
  \<open>ts\<close>, the function stops with \<open>UnboundLocalError\<close>.
\<close>

theorem stale_timestamp_reused:
  "extract_polar_hr_series [data_record (PyInt 1000) (PyInt 120), data_record PyNone (PyInt 125)]
     = ([''[Polar] record messages: 2'', ''[Polar] records with HR: 2'',
         ''[Polar] HR samples extracted: 1''],
        Inr [(PyDatetime \<lparr>wall = 1000000, tzinfo = Some 0\<rparr>, 125)])
   \<and> extract_polar_hr_series [data_record PyNone (PyInt 125)] = ([], Inl UnboundLocalError)"
  by code_simp

section \<open>The Field Resolver\<close>

text \<open>
  Claim C8. \<open>msg_value\<close> does not raise on a decoded message: for the absent message
  \<open>None\<close>, and for every message that has neither the attribute nor an entry of that
  name in its field collection, it returns \<open>None\<close>.
\<close>

theorem msg_value_absent_never_raises:
  "msg_value PyNone n = Inr PyNone
   \<and> (message_ok msg \<longrightarrow> (\<exists>v. msg_value msg n = Inr v))
   \<and> (message_ok msg \<and> \<not> py_hasattr msg n \<and> find (named n) (field_entries msg) = None
        \<longrightarrow> msg_value msg n = Inr PyNone)"
  by (auto simp: msg_value_def field_value_from_fields_ok message_ok_def)

theorem msg_value_absent_never_raises_witness:
  "message_ok (PyObj [(''fields'', PyList [PyObj [(''name'', PyStr ''power''), (''value'', PyInt 7)]])])
   \<and> msg_value
        (PyObj [(''fields'', PyList [PyObj [(''name'', PyStr ''power''), (''value'', PyInt 7)]])])
        ''heart_rate'' = Inr PyNone"
proof -
  have a: "message_ok
             (PyObj [(''fields'', PyList [PyObj [(''name'', PyStr ''power''), (''value'', PyInt 7)]])])
           \<and> \<not> py_hasattr
             (PyObj [(''fields'', PyList [PyObj [(''name'', PyStr ''power''), (''value'', PyInt 7)]])])
             ''heart_rate''
           \<and> find (named ''heart_rate'') (field_entries
             (PyObj [(''fields'', PyList [PyObj [(''name'', PyStr ''power''), (''value'', PyInt 7)]])]))
             = None"
    by code_simp
  from msg_value_absent_never_raises
         [of "''heart_rate''"
             "PyObj [(''fields'', PyList [PyObj [(''name'', PyStr ''power''), (''value'', PyInt 7)]])]"] a
  show ?thesis by blast
qed

text \<open>
  Claim C2, as the code has it. On a decoded message, \<open>msg_value\<close> returns a direct attribute as it is, with no unwrapping, and otherwise
  follows the specification's scan (the first entry of that name gives its \<open>value\<close>, else
  its \<open>raw_value\<close>, else absent). \<open>value_from_msg\<close> follows the specification on a direct
  attribute, one level of wrapper removed, and otherwise returns the \<open>value\<close> of the first
  entry of that name or absent, never its \<open>raw_value\<close>.
\<close>

theorem resolvers_two_tier:
  "message_ok msg \<Longrightarrow>
     msg_value msg n =
       Inr (if py_hasattr msg n then py_getattr msg n PyNone else spec_resolve msg n)
     \<and> value_from_msg msg n =
       Inr (if py_hasattr msg n then spec_resolve msg n
            else case find (named n) (field_entries msg) of
                   None \<Rightarrow> PyNone
                 | Some f \<Rightarrow> py_getattr f ''value'' PyNone)"
proof -
  assume "message_ok msg"
  then have ok: "fields_ok msg" by (simp add: message_ok_def)
  have e: "field_entries PyNone = []"
    by (simp add: field_entries_def)
  have a: "msg_value msg n =
       Inr (if py_hasattr msg n then py_getattr msg n PyNone else spec_resolve msg n)"
    using ok by (auto simp: msg_value_def field_value_from_fields_ok spec_resolve_def e)
  have b: "value_from_msg msg n =
       Inr (if py_hasattr msg n then spec_resolve msg n
            else case find (named n) (field_entries msg) of
                   None \<Rightarrow> PyNone
                 | Some f \<Rightarrow> py_getattr f ''value'' PyNone)"
    using ok
    by (auto simp: value_from_msg_def field_by_name_ok spec_resolve_def spec_unwrap_def e Let_def
             dest: find_named_not_None split: option.splits)
  from a b show ?thesis by simp
qed

theorem resolvers_two_tier_witness:
  "message_ok (PyObj [(''fields'', PyList [PyObj [(''name'', PyStr ''heart_rate''), (''raw_value'', PyInt 5)]])])
   \<and> msg_value
        (PyObj [(''fields'', PyList [PyObj [(''name'', PyStr ''heart_rate''), (''raw_value'', PyInt 5)]])])
        ''heart_rate'' = Inr (PyInt 5)
   \<and> value_from_msg
        (PyObj [(''fields'', PyList [PyObj [(''name'', PyStr ''heart_rate''), (''raw_value'', PyInt 5)]])])
        ''heart_rate'' = Inr PyNone"
proof -
  have a: "message_ok
     (PyObj [(''fields'', PyList [PyObj [(''name'', PyStr ''heart_rate''), (''raw_value'', PyInt 5)]])])"
    by code_simp
  have b: "(if py_hasattr
       (PyObj [(''fields'', PyList [PyObj [(''name'', PyStr ''heart_rate''), (''raw_value'', PyInt 5)]])])
       ''heart_rate''
     then py_getattr
       (PyObj [(''fields'', PyList [PyObj [(''name'', PyStr ''heart_rate''), (''raw_value'', PyInt 5)]])])
       ''heart_rate'' PyNone
     else spec_resolve
       (PyObj [(''fields'', PyList [PyObj [(''name'', PyStr ''heart_rate''), (''raw_value'', PyInt 5)]])])
       ''heart_rate'') = PyInt 5"
    by code_simp
  have c: "(if py_hasattr
       (PyObj [(''fields'', PyList [PyObj [(''name'', PyStr ''heart_rate''), (''raw_value'', PyInt 5)]])])
       ''heart_rate''
     then spec_resolve
       (PyObj [(''fields'', PyList [PyObj [(''name'', PyStr ''heart_rate''), (''raw_value'', PyInt 5)]])])
       ''heart_rate''
     else case find (named ''heart_rate'') (field_entries
       (PyObj [(''fields'', PyList [PyObj [(''name'', PyStr ''heart_rate''), (''raw_value'', PyInt 5)]])]))
       of None \<Rightarrow> PyNone | Some f \<Rightarrow> py_getattr f ''value'' PyNone) = PyNone"
    by code_simp
  from resolvers_two_tier [OF a, of "''heart_rate''"] a b c show ?thesis
    by simp
qed

text \<open>
  Claim C2, as stated, fails: \<open>msg_value\<close> hands back a wrapper found as a direct attribute
  instead of the value inside it, and \<open>value_from_msg\<close> answers absent for an entry that
  has only a \<open>raw_value\<close>.
\<close>

theorem resolver_counterexample:
  "msg_value (PyObj [(''heart_rate'', PyObj [(''value'', PyInt 5)])]) ''heart_rate''
     \<noteq> Inr (spec_resolve (PyObj [(''heart_rate'', PyObj [(''value'', PyInt 5)])]) ''heart_rate'')
   \<and> value_from_msg
       (PyObj [(''fields'', PyList [PyObj [(''name'', PyStr ''heart_rate''), (''raw_value'', PyInt 5)]])])
       ''heart_rate''
     \<noteq> Inr (spec_resolve
       (PyObj [(''fields'', PyList [PyObj [(''name'', PyStr ''heart_rate''), (''raw_value'', PyInt 5)]])])
       ''heart_rate'')"
  by code_simp

end
